theory Spec2Isabelle
  imports Main "HOL-Library.Word"
begin

section \<open>JavaScript values\<close>

subsection \<open>Strings\<close>

text \<open>
  A JavaScript string is a sequence of UTF-16 code units; \<open>length\<close>, \<open>substring\<close>,
  \<open>trim\<close> and regular expressions without the \<open>u\<close> flag all work on code units.
  ASCII literals of the source are written \<open>js ''...''\<close>; the two symbols that the
  source uses outside ASCII are given by their code units.
\<close>

type_synonym jstring = "16 word list"

definition js :: "string \<Rightarrow> jstring" where
  "js s = map (\<lambda>c. of_nat (of_char c)) s"

text \<open>U+274C (cross mark) is one code unit, U+1F4CB (clipboard) is a surrogate pair.\<close>

definition cross_mark :: jstring where
  "cross_mark = [0x274C]"

definition clipboard_sign :: jstring where
  "clipboard_sign = [0xD83D, 0xDCCB]"

subsection \<open>Exceptions\<close>

datatype exn =
    SyntaxError
  | TypeError
  | SecurityError
  | QuotaExceededError
  | NotFoundError
  | NotAllowedError

subsection \<open>JSON values\<close>

text \<open>
  The values that \<open>JSON.parse\<close> returns. An object keeps its properties in creation
  order. A number is carried as the text that \<open>ToString\<close> gives for it (the only
  thing the program ever does with a stored number is to use it as a property key).
\<close>

datatype json =
    JNull
  | JBool bool
  | JNum jstring
  | JStr jstring
  | JArr "json list"
  | JObj "(jstring \<times> json) list"

section \<open>The page as the program sees it\<close>

text \<open>
  What is kept under the key \<open>emergency_contacts_usage\<close> of \<open>localStorage\<close>: the empty
  text, a text that \<open>JSON.parse\<close> rejects, or a text that encodes a JSON value.
  \<open>JSON.stringify\<close> followed by \<open>JSON.parse\<close> gives back the value written, so
  the cell holds the value and not its text.
\<close>

datatype item_text = Blank | Unparseable | Encodes json

datatype callback = AutoHide | HideNow

record timer =
  timer_id :: nat
  due :: nat
  callback :: callback

record toast_el =
  textContent :: jstring
  className :: jstring
  display :: jstring
  animation :: jstring

datatype console_level = CLog | CWarn | CError

datatype console_arg = Text jstring | Undefined | Exn exn

type_synonym console_entry = "console_level \<times> jstring \<times> console_arg"

text \<open>The calls the program makes that leave no other mark on the page.\<close>

datatype effect =
    ShowToast jstring jstring
  | WriteText jstring
  | CreateTextarea nat
  | ExecCopy
  | Gtag jstring jstring "jstring option"

record world =
  toast :: "toast_el option"
  toastTimeout :: "nat option"
  timers :: "timer list"
  next_timer :: nat
  clock :: nat
  body :: "(nat \<times> jstring) list"
  next_node :: nat
  usage_item :: "item_text option"
  console :: "console_entry list"
  trace :: "effect list"

section \<open>Usage log\<close>

text \<open>
  What one call of \<open>storeUsageData\<close> finds around it: the clock, the browser's
  identification, and whether \<open>localStorage.getItem\<close> or \<open>localStorage.setItem\<close>
  throws (storage disabled, quota exceeded).
\<close>

record store_env =
  now_iso :: jstring
  userAgent :: jstring
  getItem_throws :: "exn option"
  setItem_throws :: "exn option"

text \<open>\<open>localStorage.getItem(key) || '[]'\<close>: a missing item and the empty text are falsy.\<close>

definition or_empty_array :: "item_text option \<Rightarrow> item_text" where
  "or_empty_array t =
     (case t of None \<Rightarrow> Encodes (JArr []) | Some Blank \<Rightarrow> Encodes (JArr []) | Some x \<Rightarrow> x)"

definition JSON_parse :: "item_text \<Rightarrow> exn + json" where
  "JSON_parse t =
     (case t of Blank \<Rightarrow> Inl SyntaxError | Unparseable \<Rightarrow> Inl SyntaxError | Encodes j \<Rightarrow> Inr j)"

text \<open>\<open>xs.slice(-n)\<close>: the last \<open>n\<close> elements, all of them when there are fewer.\<close>

definition slice_last :: "nat \<Rightarrow> 'a list \<Rightarrow> 'a list" where
  "slice_last n xs = drop (length xs - n) xs"

text \<open>
  The record that is pushed, as it reads after it has been written: \<open>JSON.stringify\<close>
  leaves out a property whose value is \<open>undefined\<close> (\<open>None\<close> here), which is what
  \<open>href\<close> is on an element that is not a link.
\<close>

definition usage_record :: "jstring \<Rightarrow> jstring option \<Rightarrow> store_env \<Rightarrow> json" where
  "usage_record ty v env =
     JObj ([(js ''type'', JStr ty)]
           @ (case v of None \<Rightarrow> [] | Some s \<Rightarrow> [(js ''value'', JStr s)])
           @ [(js ''timestamp'', JStr (now_iso env)),
              (js ''userAgent'', JStr (take 100 (userAgent env)))])"

text \<open>The body of the \<open>try\<close> block; \<open>push\<close> on a value that is not an array is a TypeError.\<close>

definition storeUsageData_try :: "jstring \<Rightarrow> jstring option \<Rightarrow> store_env \<Rightarrow> world \<Rightarrow> exn + world" where
  "storeUsageData_try ty v env w =
     (case getItem_throws env of
        Some e \<Rightarrow> Inl e
      | None \<Rightarrow>
          (case JSON_parse (or_empty_array (usage_item w)) of
             Inl e \<Rightarrow> Inl e
           | Inr existingData \<Rightarrow>
               (case existingData of
                  JArr xs \<Rightarrow>
                    (let pushed = xs @ [usage_record ty v env];
                         recentData = slice_last 50 pushed
                     in case setItem_throws env of
                          Some e \<Rightarrow> Inl e
                        | None \<Rightarrow> Inr (w\<lparr>usage_item := Some (Encodes (JArr recentData))\<rparr>))
                | _ \<Rightarrow> Inl TypeError)))"

definition storeUsageData :: "jstring \<Rightarrow> jstring option \<Rightarrow> store_env \<Rightarrow> world \<Rightarrow> exn + world" where
  "storeUsageData ty v env w =
     (case storeUsageData_try ty v env w of
        Inr w' \<Rightarrow> Inr w'
      | Inl error \<Rightarrow>
          Inr (w\<lparr>console := console w @ [(CWarn, js ''Could not store usage data:'', Exn error)]\<rparr>))"

text \<open>The log that the next reader of the item would get, if the item holds an array.\<close>

definition stored_log :: "world \<Rightarrow> json list option" where
  "stored_log w =
     (case or_empty_array (usage_item w) of Encodes (JArr xs) \<Rightarrow> Some xs | _ \<Rightarrow> None)"

type_synonym usage_event = "jstring \<times> jstring option \<times> store_env"

definition record_of :: "usage_event \<Rightarrow> json" where
  "record_of ev = (case ev of (ty, v, env) \<Rightarrow> usage_record ty v env)"

definition storage_works :: "usage_event \<Rightarrow> bool" where
  "storage_works ev = (case ev of (ty, v, env) \<Rightarrow> getItem_throws env = None \<and> setItem_throws env = None)"

text \<open>A sequence of tracked events, each recorded by one call; a raise would end the run.\<close>

fun record_all :: "world \<Rightarrow> usage_event list \<Rightarrow> world" where
  "record_all w [] = w"
| "record_all w (ev # evs) =
     (case ev of (ty, v, env) \<Rightarrow>
        (case storeUsageData ty v env w of Inr w' \<Rightarrow> record_all w' evs | Inl e \<Rightarrow> w))"

text \<open>A page as it is when the script starts: the notification element hidden, nothing stored.\<close>

definition initial_world :: world where
  "initial_world =
     \<lparr>toast = Some \<lparr>textContent = [], className = js ''toast'', display = js ''none'', animation = []\<rparr>,
      toastTimeout = None, timers = [], next_timer = 1, clock = 0, body = [], next_node = 0,
      usage_item = None, console = [], trace = []\<rparr>"

definition sample_env :: store_env where
  "sample_env =
     \<lparr>now_iso = js ''2024-01-01T00:00:00.000Z'', userAgent = js ''Mozilla/5.0'',
      getItem_throws = None, setItem_throws = None\<rparr>"

text \<open>The \<open>n\<close>-th sample event records a call to the number written as \<open>n\<close> ones.\<close>

definition sample_event :: "nat \<Rightarrow> usage_event" where
  "sample_event n = (js ''phone_call'', Some (replicate n 0x31), sample_env)"

section \<open>Tracking clicks\<close>

text \<open>\<open>\d\<close> without the \<open>u\<close> flag is exactly \<open>[0-9]\<close>.\<close>

definition is_digit :: "16 word \<Rightarrow> bool" where
  "is_digit c = (0x30 \<le> c \<and> c \<le> 0x39)"

definition hyphen :: "16 word" where
  "hyphen = 0x2D"







definition sanitized :: "jstring \<Rightarrow> bool" where
  "sanitized s = list_all (\<lambda>c. is_digit c \<or> c = hyphen) s"

text \<open>A stored record of type \<open>phone_call\<close> has a string value made of digits and hyphens.\<close>

definition clean_record :: "json \<Rightarrow> bool" where
  "clean_record x =
     (case x of
        JObj ps \<Rightarrow>
          (if map_of ps (js ''type'') = Some (JStr (js ''phone_call''))
           then (case map_of ps (js ''value'') of Some (JStr s) \<Rightarrow> sanitized s | _ \<Rightarrow> False)
           else True)
      | _ \<Rightarrow> True)"

section \<open>Usage statistics\<close>

subsection \<open>Property keys\<close>

definition join :: "jstring \<Rightarrow> jstring list \<Rightarrow> jstring" where
  "join sep xs = (case xs of [] \<Rightarrow> [] | y # ys \<Rightarrow> y @ concat (map (\<lambda>z. sep @ z) ys))"

text \<open>
  \<open>ToString\<close> on a parsed value. An object goes through \<open>toString\<close> and then
  \<open>valueOf\<close>: with an own property \<open>toString\<close> (never callable in parsed JSON) both
  fail and the conversion is a TypeError; without it the inherited method gives
  \<open>[object Object]\<close>. An array joins the texts of its elements, with \<open>null\<close> written
  as the empty text.
\<close>

fun to_string :: "json \<Rightarrow> exn + jstring"
  and to_strings :: "json list \<Rightarrow> exn + jstring list" where
  "to_string JNull = Inr (js ''null'')"
| "to_string (JBool b) = Inr (if b then js ''true'' else js ''false'')"
| "to_string (JNum t) = Inr t"
| "to_string (JStr s) = Inr s"
| "to_string (JArr xs) =
     (case to_strings xs of Inl e \<Rightarrow> Inl e | Inr ts \<Rightarrow> Inr (join (js '','') ts))"
| "to_string (JObj ps) =
     (if js ''toString'' \<in> set (map fst ps) then Inl TypeError else Inr (js ''[object Object]''))"
| "to_strings [] = Inr []"
| "to_strings (x # xs) =
     (case (case x of JNull \<Rightarrow> Inr [] | _ \<Rightarrow> to_string x) of
        Inl e \<Rightarrow> Inl e
      | Inr t \<Rightarrow> (case to_strings xs of Inl e \<Rightarrow> Inl e | Inr ts \<Rightarrow> Inr (t # ts)))"

text \<open>\<open>ToPropertyKey\<close> of what a property read gave; \<open>None\<close> is \<open>undefined\<close>.\<close>

definition prop_key :: "json option \<Rightarrow> exn + jstring" where
  "prop_key v = (case v of None \<Rightarrow> Inr (js ''undefined'') | Some j \<Rightarrow> to_string j)"

text \<open>
  \<open>item.name\<close> for one of the names \<open>type\<close> and \<open>value\<close>: a TypeError on \<open>null\<close>, the
  own property on an object, \<open>undefined\<close> on anything else (no prototype has either name).
\<close>

definition get_prop :: "json \<Rightarrow> jstring \<Rightarrow> exn + json option" where
  "get_prop item name =
     (case item of JNull \<Rightarrow> Inl TypeError | JObj ps \<Rightarrow> Inr (map_of ps name) | _ \<Rightarrow> Inr None)"

text \<open>\<open>data.filter(item => item.type === ty)\<close>; the first raise of the callback ends it.\<close>

fun filter_type :: "jstring \<Rightarrow> json list \<Rightarrow> exn + json list" where
  "filter_type ty [] = Inr []"
| "filter_type ty (item # items) =
     (case get_prop item (js ''type'') of
        Inl e \<Rightarrow> Inl e
      | Inr t \<Rightarrow>
          (case filter_type ty items of
             Inl e \<Rightarrow> Inl e
           | Inr rest \<Rightarrow> Inr (if t = Some (JStr ty) then item # rest else rest)))"

subsection \<open>The \<open>counts\<close> object\<close>

text \<open>
  \<open>counts\<close> starts as \<open>{}\<close> and is kept as the list of its own properties in creation
  order. \<open>counts[k] = (counts[k] || 0) + 1\<close> adds one to an own property or creates it
  with value 1, under two provisos that come from \<open>Object.prototype\<close>:
  \<^item> for the key \<open>__proto__\<close> the read gives the prototype object and the write is
    the prototype setter called with a string, which does nothing;
  \<^item> for the name of a method of \<open>Object.prototype\<close> the read gives a function, the
    sum is a string built from the function's source text and the comparisons of the
    sort give \<open>NaN\<close>: what comes out then depends on the engine.
\<close>

definition inherited_names :: "jstring list" where
  "inherited_names =
     map js [''constructor'', ''hasOwnProperty'', ''isPrototypeOf'', ''propertyIsEnumerable'',
             ''toLocaleString'', ''toString'', ''valueOf'', ''__defineGetter__'',
             ''__defineSetter__'', ''__lookupGetter__'', ''__lookupSetter__'']"

fun bump :: "(jstring \<times> nat) list \<Rightarrow> jstring \<Rightarrow> (jstring \<times> nat) list" where
  "bump [] k = [(k, 1)]"
| "bump ((k', c) # cs) k = (if k' = k then (k', c + 1) # cs else (k', c) # bump cs k)"

fun count_values :: "(jstring \<times> nat) list \<Rightarrow> json list \<Rightarrow> exn + (jstring \<times> nat) list" where
  "count_values counts [] = Inr counts"
| "count_values counts (item # items) =
     (case get_prop item (js ''value'') of
        Inl e \<Rightarrow> Inl e
      | Inr v \<Rightarrow>
          (case prop_key v of
             Inl e \<Rightarrow> Inl e
           | Inr k \<Rightarrow> count_values (if k = js ''__proto__'' then counts else bump counts k) items))"

text \<open>
  An array index is the canonical decimal text of an integer from 0 to \<open>2^32 - 2\<close>.
  \<open>Object.entries\<close> lists the own properties whose keys are array indices first, in
  ascending numeric order, and then the others in creation order.
\<close>

definition decimal :: "jstring \<Rightarrow> nat" where
  "decimal s = foldl (\<lambda>n c. 10 * n + (unat c - 48)) 0 s"

definition array_index :: "jstring \<Rightarrow> nat option" where
  "array_index s =
     (if s \<noteq> [] \<and> list_all is_digit s \<and> (hd s \<noteq> 0x30 \<or> s = [0x30]) \<and> decimal s < 4294967295
      then Some (decimal s) else None)"

definition Object_entries :: "(jstring \<times> nat) list \<Rightarrow> (jstring \<times> nat) list" where
  "Object_entries counts =
     map snd (sort_key fst
                (List.map_filter (\<lambda>e. map_option (\<lambda>n. (n, e)) (array_index (fst e))) counts))
     @ filter (\<lambda>e. array_index (fst e) = None) counts"

text \<open>
  \<open>Array.prototype.sort\<close> with a comparison function is a stable sort: an element goes
  before the first one that it does not have to follow.
\<close>

fun insert_by :: "('a \<Rightarrow> 'a \<Rightarrow> int) \<Rightarrow> 'a \<Rightarrow> 'a list \<Rightarrow> 'a list" where
  "insert_by cmp x [] = [x]"
| "insert_by cmp x (y # ys) = (if cmp x y \<le> 0 then x # y # ys else y # insert_by cmp x ys)"

definition sort_by :: "('a \<Rightarrow> 'a \<Rightarrow> int) \<Rightarrow> 'a list \<Rightarrow> 'a list" where
  "sort_by cmp xs = foldr (insert_by cmp) xs []"

text \<open>The comparison function \<open>([,a], [,b]) => b - a\<close>.\<close>

definition by_count_desc :: "jstring \<times> nat \<Rightarrow> jstring \<times> nat \<Rightarrow> int" where
  "by_count_desc x y = int (snd y) - int (snd x)"

datatype ranking = Ranked "(jstring \<times> nat) list" | Engine_dependent

definition getMostUsed :: "json list \<Rightarrow> exn + ranking" where
  "getMostUsed phoneCallData =
     (case count_values [] phoneCallData of
        Inl e \<Rightarrow> Inl e
      | Inr counts \<Rightarrow>
          Inr (if \<exists>k \<in> set (map fst counts). k \<in> set inherited_names
               then Engine_dependent
               else Ranked (take 5 (sort_by by_count_desc (Object_entries counts)))))"

subsection \<open>\<open>getUsageStats\<close>\<close>

record stats =
  totalUsage :: nat
  phoneCallsCount :: nat
  resourceAccessCount :: nat
  mostUsedNumbers :: ranking
  recentActivity :: "json list"

text \<open>
  The body of the \<open>try\<close> block. \<open>data.length\<close> on \<open>null\<close> and \<open>data.filter(...)\<close> on a
  value that is not an array are TypeErrors.
\<close>

definition getUsageStats_try :: "exn option \<Rightarrow> world \<Rightarrow> exn + stats" where
  "getUsageStats_try getItem_fails w =
     (case getItem_fails of
        Some e \<Rightarrow> Inl e
      | None \<Rightarrow>
          (case JSON_parse (or_empty_array (usage_item w)) of
             Inl e \<Rightarrow> Inl e
           | Inr data \<Rightarrow>
               (case data of
                  JArr xs \<Rightarrow>
                    (case filter_type (js ''phone_call'') xs of
                       Inl e \<Rightarrow> Inl e
                     | Inr phoneCalls \<Rightarrow>
                         (case filter_type (js ''resource_access'') xs of
                            Inl e \<Rightarrow> Inl e
                          | Inr resources \<Rightarrow>
                              (case getMostUsed phoneCalls of
                                 Inl e \<Rightarrow> Inl e
                               | Inr most \<Rightarrow>
                                   Inr \<lparr>totalUsage = length xs,
                                        phoneCallsCount = length phoneCalls,
                                        resourceAccessCount = length resources,
                                        mostUsedNumbers = most,
                                        recentActivity = rev (slice_last 10 xs)\<rparr>)))
                | _ \<Rightarrow> Inl TypeError)))"

text \<open>What the caller gets (\<open>None\<close> is \<open>null\<close>), and the page with what was logged.\<close>

definition getUsageStats :: "exn option \<Rightarrow> world \<Rightarrow> (exn + stats option) \<times> world" where
  "getUsageStats getItem_fails w =
     (case getUsageStats_try getItem_fails w of
        Inr s \<Rightarrow> (Inr (Some s), w)
      | Inl error \<Rightarrow>
          (Inr None,
           w\<lparr>console := console w @ [(CWarn, js ''Could not get usage stats:'', Exn error)]\<rparr>))"


section \<open>Notification widget\<close>

text \<open>
  Timers are kept in the order in which they were set. \<open>setTimeout\<close> returns a fresh
  positive handle; \<open>clearTimeout\<close> drops the timer with that handle, if there is one.
\<close>

definition setTimeout :: "callback \<Rightarrow> nat \<Rightarrow> world \<Rightarrow> nat \<times> world" where
  "setTimeout cb delay w =
     (next_timer w,
      w\<lparr>timers := timers w @ [\<lparr>timer_id = next_timer w, due = clock w + delay, callback = cb\<rparr>],
        next_timer := next_timer w + 1\<rparr>)"

definition clearTimeout :: "nat \<Rightarrow> world \<Rightarrow> world" where
  "clearTimeout h w = w\<lparr>timers := filter (\<lambda>t. timer_id t \<noteq> h) (timers w)\<rparr>"

text \<open>
  \<open>showToast(message, type)\<close>. The call is noted in the trace; without an element with
  id \<open>toast\<close> nothing else happens. \<open>if (this.toastTimeout)\<close> holds for a handle that
  is not 0. The timer that is set runs \<open>AutoHide\<close> after 3000 ms.
\<close>

definition showToast :: "jstring \<Rightarrow> jstring \<Rightarrow> world \<Rightarrow> world" where
  "showToast message ty w0 =
     (let w = w0\<lparr>trace := trace w0 @ [ShowToast message ty]\<rparr>
      in case toast w of
           None \<Rightarrow> w
         | Some el \<Rightarrow>
             (let w1 = (case toastTimeout w of
                          None \<Rightarrow> w
                        | Some h \<Rightarrow> if h \<noteq> 0 then clearTimeout h w else w);
                  el' = el\<lparr>textContent := message,
                           className := js ''toast toast--'' @ ty,
                           display := js ''block'',
                           animation := js ''slideInRight 0.3s ease''\<rparr>;
                  scheduled = setTimeout AutoHide 3000 (w1\<lparr>toast := Some el'\<rparr>)
              in (snd scheduled)\<lparr>toastTimeout := Some (fst scheduled)\<rparr>))"

text \<open>
  The two timer callbacks of \<open>showToast\<close>: the outer one starts the exit animation and
  sets a timer of 300 ms for the inner one, which hides the element. The handle of the
  inner timer is not kept anywhere.
\<close>

definition run_callback :: "callback \<Rightarrow> world \<Rightarrow> world" where
  "run_callback cb w =
     (case cb of
        AutoHide \<Rightarrow>
          snd (setTimeout HideNow 300
                 (w\<lparr>toast := map_option (\<lambda>el. el\<lparr>animation := js ''slideOutRight 0.3s ease''\<rparr>) (toast w)\<rparr>))
      | HideNow \<Rightarrow> w\<lparr>toast := map_option (\<lambda>el. el\<lparr>display := js ''none''\<rparr>) (toast w)\<rparr>)"

text \<open>The timer that fires next: the earliest due, the one set first among equals.\<close>

fun earliest :: "timer list \<Rightarrow> timer option" where
  "earliest [] = None"
| "earliest (t # ts) =
     (case earliest ts of None \<Rightarrow> Some t | Some u \<Rightarrow> if due u < due t then Some u else Some t)"

definition weight :: "timer \<Rightarrow> nat" where
  "weight t = (case callback t of AutoHide \<Rightarrow> 2 | HideNow \<Rightarrow> 1)"

definition fire :: "timer \<Rightarrow> world \<Rightarrow> world" where
  "fire t w = run_callback (callback t) (w\<lparr>timers := remove1 t (timers w), clock := max (clock w) (due t)\<rparr>)"

lemma earliest_in: "earliest ts = Some t \<Longrightarrow> t \<in> set ts"
  by (induction ts arbitrary: t) (auto split: option.splits if_splits)

lemma weight_remove1:
  "t \<in> set ts \<Longrightarrow> sum_list (map weight (remove1 t ts)) + weight t = sum_list (map weight ts)"
  by (induction ts) auto

lemma fire_decreases:
  assumes "earliest (timers w) = Some t"
  shows "sum_list (map weight (timers (fire t w))) < sum_list (map weight (timers w))"
proof -
  have "t \<in> set (timers w)"
    using assms by (rule earliest_in)
  from weight_remove1 [OF this] show ?thesis
    by (cases "callback t") (simp_all add: fire_def run_callback_def setTimeout_def weight_def)
qed

text \<open>Time passes until \<open>deadline\<close>: the timers that are due by then fire in order.\<close>

function elapse_until :: "nat \<Rightarrow> world \<Rightarrow> world" where
  "elapse_until deadline w =
     (case earliest (timers w) of
        None \<Rightarrow> w\<lparr>clock := max (clock w) deadline\<rparr>
      | Some t \<Rightarrow>
          if due t \<le> deadline then elapse_until deadline (fire t w)
          else w\<lparr>clock := max (clock w) deadline\<rparr>)"
  by pat_completeness auto
termination
  by (relation "measure (\<lambda>(deadline, w). sum_list (map weight (timers w)))")
     (auto simp: fire_decreases)

declare elapse_until.simps [simp del]

definition elapse :: "nat \<Rightarrow> world \<Rightarrow> world" where
  "elapse ms w = elapse_until (clock w + ms) w"

text \<open>The notifications requested so far, oldest first.\<close>

fun toasts_of :: "effect list \<Rightarrow> (jstring \<times> jstring) list" where
  "toasts_of [] = []"
| "toasts_of (ShowToast m k # es) = (m, k) # toasts_of es"
| "toasts_of (e # es) = toasts_of es"

section \<open>Clipboard\<close>

text \<open>
  What a copy finds around it: whether \<open>navigator.clipboard\<close> exists, whether the
  context is secure, how the promise of \<open>writeText\<close> settles and what
  \<open>document.execCommand('copy')\<close> does.
\<close>

datatype write_outcome = Resolves | Rejects exn

datatype exec_outcome = Returns bool | Throws exn

record clip_env =
  has_clipboard :: bool
  isSecureContext :: bool
  writeText_outcome :: write_outcome
  execCommand_outcome :: exec_outcome

text \<open>A raise comes with the page as it was when it happened.\<close>

type_synonym raised = "exn \<times> world"

text \<open>\<open>document.body.removeChild(node)\<close> is a NotFoundError when the node is not a child.\<close>

definition removeChild :: "nat \<Rightarrow> world \<Rightarrow> raised + world" where
  "removeChild node w =
     (if node \<in> fst ` set (body w)
      then Inr (w\<lparr>body := filter (\<lambda>n. fst n \<noteq> node) (body w)\<rparr>)
      else Inl (NotFoundError, w))"

text \<open>
  \<open>fallbackCopyToClipboard(text)\<close>: the textarea is created with a fresh identity,
  appended to the body, focused and selected; the \<open>try\<close> runs the copy command and
  shows a notification; the \<open>finally\<close> removes the textarea.
\<close>

definition fallbackCopyToClipboard :: "jstring \<Rightarrow> clip_env \<Rightarrow> world \<Rightarrow> raised + world" where
  "fallbackCopyToClipboard text env w =
     (let textArea = next_node w;
          w1 = w\<lparr>next_node := textArea + 1, trace := trace w @ [CreateTextarea textArea]\<rparr>;
          w2 = w1\<lparr>body := body w1 @ [(textArea, text)]\<rparr>;
          w3 = w2\<lparr>trace := trace w2 @ [ExecCopy]\<rparr>;
          w4 = (case execCommand_outcome env of
                  Returns successful \<Rightarrow>
                    if successful
                    then showToast (clipboard_sign @ js '' Copied: '' @ text) (js ''success'') w3
                    else showToast (cross_mark @ js '' Copy failed - please try again'') (js ''error'') w3
                | Throws err \<Rightarrow>
                    showToast (cross_mark @ js '' Copy not supported'') (js ''error'')
                      (w3\<lparr>console := console w3 @ [(CError, js ''Fallback copy failed:'', Exn err)]\<rparr>))
      in removeChild textArea w4)"

text \<open>The body of the \<open>try\<close> block of \<open>copyToClipboard\<close>.\<close>

definition copyToClipboard_try :: "jstring \<Rightarrow> clip_env \<Rightarrow> world \<Rightarrow> raised + world" where
  "copyToClipboard_try text env w =
     (if has_clipboard env \<and> isSecureContext env
      then (let w1 = w\<lparr>trace := trace w @ [WriteText text]\<rparr>
            in case writeText_outcome env of
                 Resolves \<Rightarrow> Inr (showToast (clipboard_sign @ js '' Copied: '' @ text) (js ''success'') w1)
               | Rejects err \<Rightarrow> Inl (err, w1))
      else fallbackCopyToClipboard text env w)"

text \<open>
  \<open>copyToClipboard(text)\<close>; \<open>None\<close> is a missing argument. \<open>Inl\<close> is the rejection
  of the promise that the \<open>async\<close> function returns.
\<close>

definition copyToClipboard :: "jstring option \<Rightarrow> clip_env \<Rightarrow> world \<Rightarrow> raised + world" where
  "copyToClipboard text env w =
     (case text of
        None \<Rightarrow> Inr (showToast (cross_mark @ js '' No phone number found'') (js ''error'') w)
      | Some t \<Rightarrow>
          if t = [] then Inr (showToast (cross_mark @ js '' No phone number found'') (js ''error'') w)
          else (case copyToClipboard_try t env w of
                  Inr w' \<Rightarrow> Inr w'
                | Inl (err, w') \<Rightarrow>
                    fallbackCopyToClipboard t env
                      (w'\<lparr>console := console w' @ [(CError, js ''Clipboard operation failed:'', Exn err)]\<rparr>)))"

section \<open>Finding the phone number of a copy button\<close>

text \<open>
  The document is a tree of element and text nodes. An element carries its class
  list and its \<open>data-phone\<close> attribute, if it has one. A node is identified by the
  path of child positions that leads to it from the root element.
\<close>

datatype node = TextNode jstring | Element "jstring list" "jstring option" "node list"

type_synonym path = "nat list"

fun node_at :: "node \<Rightarrow> path \<Rightarrow> node option" where
  "node_at n [] = Some n"
| "node_at (TextNode s) (i # p) = None"
| "node_at (Element cs d ks) (i # p) = (if i < length ks then node_at (ks ! i) p else None)"

text \<open>\<open>textContent\<close> of a node: the texts below it, in document order.\<close>

fun textContent_of :: "node \<Rightarrow> jstring" where
  "textContent_of (TextNode s) = s"
| "textContent_of (Element cs d ks) = concat (map textContent_of ks)"

definition text_at :: "node \<Rightarrow> path \<Rightarrow> jstring option" where
  "text_at doc p = map_option textContent_of (node_at doc p)"

definition is_element :: "node \<Rightarrow> bool" where
  "is_element n = (case n of Element cs d ks \<Rightarrow> True | TextNode s \<Rightarrow> False)"

text \<open>\<open>classList.contains(cls)\<close> on the node at a path.\<close>

definition has_class_at :: "node \<Rightarrow> jstring \<Rightarrow> path \<Rightarrow> bool" where
  "has_class_at doc cls p =
     (case node_at doc p of Some (Element cs d ks) \<Rightarrow> cls \<in> set cs | _ \<Rightarrow> False)"

definition dataset_phone_at :: "node \<Rightarrow> path \<Rightarrow> jstring option" where
  "dataset_phone_at doc p = (case node_at doc p of Some (Element cs d ks) \<Rightarrow> d | _ \<Rightarrow> None)"

text \<open>The nearest sibling before the node that is an element; text nodes are skipped.\<close>

definition previousElementSibling :: "node \<Rightarrow> path \<Rightarrow> path option" where
  "previousElementSibling doc p =
     (if p = [] then None
      else (case node_at doc (butlast p) of
              Some (Element cs d ks) \<Rightarrow>
                (case filter (\<lambda>j. is_element (ks ! j)) (rev [0..<min (last p) (length ks)]) of
                   [] \<Rightarrow> None
                 | j # earlier \<Rightarrow> Some (butlast p @ [j]))
            | _ \<Rightarrow> None))"

text \<open>
  \<open>closest('.cls')\<close>: the node itself or its nearest ancestor with the class. The
  path is walked from its end, so the function takes it reversed.
\<close>

fun closest_rev :: "node \<Rightarrow> jstring \<Rightarrow> path \<Rightarrow> path option" where
  "closest_rev doc cls [] = (if has_class_at doc cls [] then Some [] else None)"
| "closest_rev doc cls (i # rp) =
     (if has_class_at doc cls (rev (i # rp)) then Some (rev (i # rp)) else closest_rev doc cls rp)"

definition closest :: "node \<Rightarrow> jstring \<Rightarrow> path \<Rightarrow> path option" where
  "closest doc cls p = closest_rev doc cls (rev p)"

text \<open>\<open>querySelectorAll('.cls')\<close>: the descendants with the class, in document order.\<close>

fun select_in :: "jstring \<Rightarrow> path \<Rightarrow> node \<Rightarrow> path list"
  and select_children :: "jstring \<Rightarrow> path \<Rightarrow> nat \<Rightarrow> node list \<Rightarrow> path list" where
  "select_in cls p (TextNode s) = []"
| "select_in cls p (Element cs d ks) = (if cls \<in> set cs then [p] else []) @ select_children cls p 0 ks"
| "select_children cls p i [] = []"
| "select_children cls p i (k # ks) = select_in cls (p @ [i]) k @ select_children cls p (Suc i) ks"

definition querySelectorAll :: "node \<Rightarrow> path \<Rightarrow> jstring \<Rightarrow> path list" where
  "querySelectorAll doc p cls =
     (case node_at doc p of Some (Element cs d ks) \<Rightarrow> select_children cls p 0 ks | _ \<Rightarrow> [])"

text \<open>\<open>indexOf\<close>; \<open>None\<close> is \<open>-1\<close>.\<close>

fun indexOf :: "'a list \<Rightarrow> 'a \<Rightarrow> nat option" where
  "indexOf [] x = None"
| "indexOf (y # ys) x = (if y = x then Some 0 else map_option Suc (indexOf ys x))"

text \<open>\<open>trim\<close> removes white space and line terminators from both ends.\<close>

definition is_space :: "16 word \<Rightarrow> bool" where
  "is_space c =
     (c \<in> set [0x9, 0xA, 0xB, 0xC, 0xD, 0x20, 0xA0, 0x1680, 0x2028, 0x2029, 0x202F, 0x205F, 0x3000, 0xFEFF]
      \<or> (0x2000 \<le> c \<and> c \<le> 0x200A))"

definition trim :: "jstring \<Rightarrow> jstring" where
  "trim s = rev (dropWhile is_space (rev (dropWhile is_space s)))"

text \<open>
  \<open>extractPhoneNumber(copyButton)\<close>; \<open>None\<close> is \<open>null\<close>. \<open>phoneButtons[copyIndex]\<close>
  is \<open>undefined\<close> when the index is \<open>-1\<close> or past the end; \<open>dataset.phone || null\<close>
  is \<open>null\<close> for a missing and for an empty attribute.
\<close>

definition extractPhoneNumber :: "node \<Rightarrow> path \<Rightarrow> jstring option" where
  "extractPhoneNumber doc copyButton =
     (let phoneButton = previousElementSibling doc copyButton;
          adjacent = (case phoneButton of
                        None \<Rightarrow> None
                      | Some q \<Rightarrow> if has_class_at doc (js ''phone-btn'') q then text_at doc q else None)
      in case adjacent of
           Some t \<Rightarrow> Some (trim t)
         | None \<Rightarrow>
             (let paired =
                    (case closest doc (js ''phone-list'') copyButton of
                       None \<Rightarrow> None
                     | Some phoneList \<Rightarrow>
                         (let phoneButtons = querySelectorAll doc phoneList (js ''phone-btn'');
                              copyButtons = querySelectorAll doc phoneList (js ''copy-btn'')
                          in case indexOf copyButtons copyButton of
                               None \<Rightarrow> None
                             | Some copyIndex \<Rightarrow>
                                 if copyIndex < length phoneButtons
                                 then text_at doc (phoneButtons ! copyIndex) else None))
              in case paired of
                   Some t \<Rightarrow> Some (trim t)
                 | None \<Rightarrow>
                     (case dataset_phone_at doc copyButton of
                        None \<Rightarrow> None
                      | Some s \<Rightarrow> if s = [] then None else Some s)))"

section \<open>Predicates and sample data used in the statements\<close>

text \<open>The item holds a log, and every phone call in it has a clean value.\<close>

definition clean_log :: "world \<Rightarrow> bool" where
  "clean_log w = (\<exists>log. stored_log w = Some log \<and> (\<forall>x \<in> set log. clean_record x))"

text \<open>The distinct elements of a list, in the order in which they first occur.\<close>

fun first_seen :: "'a list \<Rightarrow> 'a list" where
  "first_seen [] = []"
| "first_seen (x # xs) = x # filter (\<lambda>y. y \<noteq> x) (first_seen xs)"

text \<open>The record that \<open>trackPhoneCall\<close> stores for a cleaned number.\<close>

definition phone_call_of :: "jstring \<times> store_env \<Rightarrow> json" where
  "phone_call_of c = usage_record (js ''phone_call'') (Some (fst c)) (snd c)"



text \<open>Three calls to 102, three to 100 and one to 101; the first call is to 102.\<close>

definition tied_calls :: "(jstring \<times> store_env) list" where
  "tied_calls = map (\<lambda>v. (js v, sample_env))
      [''102'', ''100'', ''102'', ''100'', ''102'', ''100'', ''101'']"

text \<open>The same numbers with the first call to 100, and 100 tied with a hyphenated number.\<close>

definition ordered_calls :: "(jstring \<times> store_env) list" where
  "ordered_calls = map (\<lambda>v. (js v, sample_env))
      [''100'', ''102'', ''100'', ''102'', ''100'', ''102'', ''101'']"

definition mixed_calls :: "(jstring \<times> store_env) list" where
  "mixed_calls = map (\<lambda>v. (js v, sample_env))
      [''100'', ''01-4228435'', ''100'', ''01-4228435'', ''100'', ''01-4228435'', ''101'']"

text \<open>
  \<open>Object.entries\<close> lists the key \<open>B\<close> before the key \<open>A\<close> although \<open>A\<close> was created
  first: \<open>B\<close> is an array index, and \<open>A\<close> is not one or is a larger one.
\<close>

definition index_before :: "jstring \<Rightarrow> jstring \<Rightarrow> bool" where
  "index_before B A =
     (case array_index B of
        None \<Rightarrow> False
      | Some b \<Rightarrow> (case array_index A of None \<Rightarrow> True | Some a \<Rightarrow> b < a))"

definition hyphenated_calls :: "(jstring \<times> store_env) list" where
  "hyphenated_calls = map (\<lambda>v. (js v, sample_env))
      [''01-4228435'', ''1-0'', ''01-4228435'', ''1-0'', ''100'', ''01-4228435'', ''1-0'']"

text \<open>The message shown when there is nothing to copy.\<close>

definition no_phone_message :: jstring where
  "no_phone_message = cross_mark @ js '' No phone number found''"

text \<open>A secure page on which the clipboard permission is denied and the copy command fails.\<close>

definition denied_env :: clip_env where
  "denied_env =
     \<lparr>has_clipboard = True, isSecureContext = True,
      writeText_outcome = Rejects NotAllowedError, execCommand_outcome = Returns False\<rparr>"

text \<open>What can happen to the widget: a notification is requested, or time passes.\<close>

datatype widget_event = Notify jstring jstring | Wait nat

fun widget_step :: "widget_event \<Rightarrow> world \<Rightarrow> world" where
  "widget_step (Notify m k) w = showToast m k w"
| "widget_step (Wait ms) w = elapse ms w"

definition widget_run :: "world \<Rightarrow> widget_event list \<Rightarrow> world" where
  "widget_run w evs = foldl (\<lambda>w ev. widget_step ev w) w evs"

text \<open>
  Every pending \<open>AutoHide\<close> timer is the one whose handle is kept in \<open>toastTimeout\<close>;
  handles are positive, distinct and below the next one to be given out.
\<close>

definition tracked :: "world \<Rightarrow> bool" where
  "tracked w =
     (0 < next_timer w
      \<and> (\<forall>t \<in> set (timers w). timer_id t < next_timer w)
      \<and> distinct (map timer_id (timers w))
      \<and> (\<forall>t \<in> set (timers w). callback t = AutoHide \<longrightarrow> toastTimeout w = Some (timer_id t) \<and> timer_id t \<noteq> 0))"

text \<open>
  A first notification on the initial page, and a second one 3.1 seconds later, when
  the first has started to fade and is not hidden yet.
\<close>

definition first_shown :: world where
  "first_shown = showToast (js ''first'') (js ''success'') initial_world"

definition first_fading :: world where
  "first_fading = elapse 3100 first_shown"

definition second_shown :: world where
  "second_shown = showToast (js ''second'') (js ''success'') first_fading"

text \<open>A third notification, 100 ms after the second.\<close>

definition third_shown :: world where
  "third_shown = showToast (js ''third'') (js ''error'') (elapse 100 second_shown)"

text \<open>Sample documents.\<close>

definition phone_button :: "string \<Rightarrow> node" where
  "phone_button t = Element [js ''phone-btn''] None [TextNode (js t)]"

definition copy_button :: node where
  "copy_button = Element [js ''copy-btn''] None [TextNode (js ''Copy'')]"

definition label_of :: "string \<Rightarrow> node" where
  "label_of t = Element [] None [TextNode (js t)]"

definition adjacent_doc :: node where
  "adjacent_doc = Element [] None [TextNode (js '' ''), phone_button '' 100 '', TextNode (js '' ''), copy_button]"

definition list_doc :: node where
  "list_doc =
     Element [] None
       [Element [js ''header''] None [],
        Element [js ''phone-list''] None
          [Element [] None [phone_button ''100'', label_of ''Police'', copy_button],
           Element [] None [phone_button ''101'', label_of ''Fire'', copy_button],
           Element [] None [phone_button ''102'', label_of ''Ambulance'', copy_button]]]"

definition data_doc :: node where
  "data_doc =
     Element [] None
       [Element [js ''copy-btn''] (Some (js ''103'')) [],
        Element [js ''copy-btn''] (Some []) [],
        Element [js ''copy-btn''] None []]"

text \<open>\<open>copyButton.dataset.phone || null\<close>.\<close>

definition data_fallback :: "node \<Rightarrow> path \<Rightarrow> jstring option" where
  "data_fallback doc b =
     (case dataset_phone_at doc b of None \<Rightarrow> None | Some s \<Rightarrow> if s = [] then None else Some s)"

section \<open>String literals\<close>

lemma of_char_small: "(of_char c :: nat) < 256"
proof -
  have "(of_char c :: nat) mod 256 < 256" by simp
  then show ?thesis by (simp only: of_char_mod_256)
qed

lemma unit_inj:
  assumes "(word_of_nat (of_char c) :: 16 word) = word_of_nat (of_char d)"
  shows "c = d"
proof -
  have "unat (word_of_nat (of_char c) :: 16 word) = unat (word_of_nat (of_char d) :: 16 word)"
    using assms by (rule arg_cong)
  then have "(of_char c :: nat) mod 65536 = of_char d mod 65536"
    by (simp only: unat_of_nat) simp
  moreover have "(of_char c :: nat) < 65536" and "(of_char d :: nat) < 65536"
    using of_char_small [of c] of_char_small [of d] by linarith+
  ultimately have "(of_char c :: nat) = of_char d"
    by (simp only: mod_less)
  then show ?thesis by (simp only: of_char_eq_iff)
qed

lemma js_eq_iff: "(js s = js t) = (s = t)"
proof -
  have "inj (\<lambda>c. word_of_nat (of_char c) :: 16 word)"
    by (rule injI) (rule unit_inj)
  then show ?thesis
    unfolding js_def by (rule inj_map_eq_map)
qed

section \<open>Properties of the usage log\<close>

lemma slice_last_length: "length (slice_last n xs) = min (length xs) n"
  by (simp add: slice_last_def)

lemma slice_last_twice: "slice_last n (slice_last n xs @ ys) = slice_last n (xs @ ys)"
  by (cases "n \<le> length xs") (simp_all add: slice_last_def add.commute)

lemma record_of_triple: "record_of (ty, v, env) = usage_record ty v env"
  by (simp add: record_of_def)

lemma storeUsageData_works:
  assumes "stored_log w = Some xs" and "storage_works (ty, v, env)"
  shows "\<exists>w'. storeUsageData ty v env w = Inr w'
            \<and> stored_log w' = Some (slice_last 50 (xs @ [usage_record ty v env]))"
  using assms
  by (auto simp: storeUsageData_def storeUsageData_try_def stored_log_def storage_works_def
      JSON_parse_def or_empty_array_def Let_def
      split: option.splits item_text.splits json.splits)

lemma record_all_log:
  assumes "stored_log w = Some xs" and "length xs \<le> 50" and "\<forall>ev \<in> set evs. storage_works ev"
  shows "stored_log (record_all w evs) = Some (slice_last 50 (xs @ map record_of evs))"
  using assms
proof (induction evs arbitrary: w xs)
  case Nil
  then show ?case by (simp add: slice_last_def)
next
  case (Cons ev evs)
  obtain ty v env where ev: "ev = (ty, v, env)" by (cases ev) auto
  from Cons.prems ev obtain w' where
    step: "storeUsageData ty v env w = Inr w'" and
    log': "stored_log w' = Some (slice_last 50 (xs @ [usage_record ty v env]))"
    using storeUsageData_works by (metis list.set_intros(1))
  have "stored_log (record_all w' evs)
        = Some (slice_last 50 (slice_last 50 (xs @ [usage_record ty v env]) @ map record_of evs))"
    using Cons.IH [OF log'] Cons.prems(3) by (simp add: slice_last_length)
  then show ?case
    using step ev by (simp add: slice_last_twice record_of_triple)
qed

text \<open>
  Claim C1. Starting from an empty persisted log (no item, the empty text or an empty
  array), after any sequence of \<open>N\<close> tracked events recorded by \<open>storeUsageData\<close>
  (each call reaching the storage), the persisted log is the list of the most recent
  \<open>min N 50\<close> records, oldest first, so its length is \<open>min N 50\<close>; and after every
  write on the way (every prefix of the sequence) the log holds at most 50 records.
\<close>

theorem usage_log_keeps_last_50:
  assumes "stored_log w = Some []" and "\<forall>ev \<in> set evs. storage_works ev"
  shows "stored_log (record_all w evs)
           = Some (drop (length evs - min (length evs) 50) (map record_of evs))
       \<and> (\<exists>log. stored_log (record_all w evs) = Some log \<and> length log = min (length evs) 50)
       \<and> (\<forall>k \<le> length evs. \<exists>log. stored_log (record_all w (take k evs)) = Some log
                                  \<and> length log \<le> 50)"
proof -
  note empty = assms(1)
  have at: "stored_log (record_all w es) = Some (slice_last 50 (map record_of es))"
    if "\<forall>ev \<in> set es. storage_works ev" for es
    using record_all_log [OF empty _ that] by simp
  have eq: "slice_last 50 (map record_of evs)
              = drop (length evs - min (length evs) 50) (map record_of evs)"
    by (simp add: slice_last_def min_def)
  have prefixes: "\<exists>log. stored_log (record_all w (take k evs)) = Some log \<and> length log \<le> 50" for k
  proof -
    have "\<forall>ev \<in> set (take k evs). storage_works ev"
      using assms(2) by (meson in_set_takeD)
    then show ?thesis
      using at [of "take k evs"] by (simp add: slice_last_length)
  qed
  show ?thesis
    using at [OF assms(2)] eq prefixes by (simp add: slice_last_length)
qed

theorem usage_log_keeps_last_50_witness:
  "stored_log (record_all initial_world (sample_event 1 # map sample_event [2..<52]))
     = Some (map record_of (map sample_event [2..<52]))"
proof -
  have h1: "stored_log initial_world = Some []"
    by (simp add: initial_world_def stored_log_def or_empty_array_def)
  have h2: "\<forall>ev \<in> set (sample_event 1 # map sample_event [2..<52]). storage_works ev"
    by (simp add: sample_event_def storage_works_def sample_env_def)
  show ?thesis
    using usage_log_keeps_last_50 [OF h1 h2] by simp
qed

lemma storeUsageData_outcome:
  "\<exists>w'. storeUsageData ty v env w = Inr w'
      \<and> ((\<exists>xs. stored_log w = Some xs
              \<and> w' = w\<lparr>usage_item := Some (Encodes (JArr (slice_last 50 (xs @ [usage_record ty v env]))))\<rparr>)
         \<or> (\<exists>e. w' = w\<lparr>console := console w @ [(CWarn, js ''Could not store usage data:'', Exn e)]\<rparr>
                \<and> usage_item w' = usage_item w))"
  by (auto simp: storeUsageData_def storeUsageData_try_def stored_log_def
      JSON_parse_def or_empty_array_def Let_def
      split: option.splits item_text.splits json.splits)

text \<open>
  Claim C9. Recording a usage event never raises: whatever the arguments, the stored
  content and the outcome of the two storage calls, \<open>storeUsageData\<close> returns, and
  either it has written the old log with the new record appended and cut to its last
  50 entries, or it has left the stored item as it was and only written a warning to
  the console.
\<close>

theorem storeUsageData_never_raises:
  "\<exists>w'. storeUsageData ty v env w = Inr w'
      \<and> ((\<exists>xs. stored_log w = Some xs
              \<and> w' = w\<lparr>usage_item := Some (Encodes (JArr (slice_last 50 (xs @ [usage_record ty v env]))))\<rparr>)
         \<or> (\<exists>e. w' = w\<lparr>console := console w @ [(CWarn, js ''Could not store usage data:'', Exn e)]\<rparr>
                \<and> usage_item w' = usage_item w))"
  by (rule storeUsageData_outcome)

subsection \<open>Phone numbers are stored clean\<close>







lemma clean_log_console [simp]: "clean_log (w\<lparr>console := c\<rparr>) = clean_log w"
  by (simp add: clean_log_def stored_log_def)

lemma clean_log_trace [simp]: "clean_log (w\<lparr>trace := c\<rparr>) = clean_log w"
  by (simp add: clean_log_def stored_log_def)











section \<open>Properties of the statistics\<close>



lemma getUsageStats_unparseable:
  "usage_item w = Some Unparseable \<Longrightarrow>
   getUsageStats None w =
     (Inr None, w\<lparr>console := console w @ [(CWarn, js ''Could not get usage stats:'', Exn SyntaxError)]\<rparr>)"
  by (simp add: getUsageStats_def getUsageStats_try_def JSON_parse_def or_empty_array_def)


lemma own_toString_is_a_TypeError:
  "fst (getUsageStats None
          (w\<lparr>usage_item := Some (Encodes (JArr
               [JObj [(js ''type'', JStr (js ''phone_call'')),
                      (js ''value'', JObj [(js ''toString'', JNull)])]]))\<rparr>))
     = Inr None"
  by (simp add: getUsageStats_def getUsageStats_try_def JSON_parse_def or_empty_array_def
      get_prop_def getMostUsed_def prop_key_def js_eq_iff)




subsection \<open>The ranking\<close>

lemma set_first_seen [simp]: "set (first_seen xs) = set xs"
  by (induction xs) auto

lemma distinct_first_seen [simp]: "distinct (first_seen xs)"
  by (induction xs) auto

lemma first_seen_filter: "first_seen (filter P xs) = filter P (first_seen xs)"
  by (induction xs) (auto simp: filter_filter intro!: filter_cong)

lemma first_seen_snoc:
  "first_seen (xs @ [v]) = (if v \<in> set xs then first_seen xs else first_seen xs @ [v])"
  by (induction xs) auto

lemma bump_map:
  "distinct ks \<Longrightarrow>
   bump (map (\<lambda>k. (k, f k)) ks) v =
     (if v \<in> set ks then map (\<lambda>k. (k, if k = v then f k + 1 else f k)) ks
      else map (\<lambda>k. (k, f k)) ks @ [(v, 1)])"
  by (induction ks) auto

lemma foldl_bump: "foldl bump [] vs = map (\<lambda>k. (k, count_list vs k)) (first_seen vs)"
proof (induction vs rule: rev_induct)
  case Nil
  then show ?case by simp
next
  case (snoc v vs)
  have "foldl bump [] (vs @ [v]) = bump (map (\<lambda>k. (k, count_list vs k)) (first_seen vs)) v"
    using snoc.IH by simp
  also have "\<dots> = map (\<lambda>k. (k, count_list (vs @ [v]) k)) (first_seen (vs @ [v]))"
    by (auto simp: bump_map first_seen_snoc count_list_0_iff)
  finally show ?case .
qed

lemma js_value_type: "js ''value'' \<noteq> js ''type''"
  by (simp add: js_def)

lemma get_value_phone_call_of: "get_prop (phone_call_of c) (js ''value'') = Inr (Some (JStr (fst c)))"
  by (simp add: phone_call_of_def usage_record_def get_prop_def js_value_type)

lemma count_values_calls:
  "js ''__proto__'' \<notin> set (map fst calls) \<Longrightarrow>
   count_values counts (map phone_call_of calls) = Inr (foldl bump counts (map fst calls))"
  by (induction calls arbitrary: counts) (auto simp: get_value_phone_call_of prop_key_def)

lemma filter_eq_replicate: "filter (\<lambda>x. x = b) xs = replicate (count_list xs b) b"
  by (induction xs) auto

lemma first_seen_replicate: "first_seen (replicate (Suc n) b) = [b]"
  by (induction n) auto

lemma map_filter_filter:
  "List.map_filter (\<lambda>e. map_option (\<lambda>n. (n, e)) (h e)) (filter P cs)
     = filter (\<lambda>x. P (snd x)) (List.map_filter (\<lambda>e. map_option (\<lambda>n. (n, e)) (h e)) cs)"
  by (induction cs) (auto simp: List.map_filter_simps split: option.splits)

lemma filter_Object_entries:
  "filter P (Object_entries cs) = Object_entries (filter P cs)"
proof -
  let ?g = "\<lambda>e. map_option (\<lambda>n. (n, e)) (array_index (fst e))"
  have "filter P (map snd (sort_key fst (List.map_filter ?g cs)))
          = map snd (sort_key fst (filter (\<lambda>x. P (snd x)) (List.map_filter ?g cs)))"
    by (simp add: filter_map comp_def filter_sort)
  also have "\<dots> = map snd (sort_key fst (List.map_filter ?g (filter P cs)))"
    by (simp add: map_filter_filter)
  finally show ?thesis
    by (simp add: Object_entries_def conj_commute)
qed

lemma insert_high:
  "snd x = 3 \<Longrightarrow> \<forall>e \<in> set ys. snd e = 3 \<or> snd e = 1 \<Longrightarrow> insert_by by_count_desc x ys = x # ys"
  by (cases ys) (auto simp: by_count_desc_def)

lemma insert_low:
  "snd x = 1 \<Longrightarrow> \<forall>e \<in> set hi. snd e = 3 \<Longrightarrow> \<forall>e \<in> set lo. snd e = 1 \<Longrightarrow>
   insert_by by_count_desc x (hi @ lo) = hi @ x # lo"
proof (induction hi)
  case Nil
  then show ?case by (cases lo) (auto simp: by_count_desc_def)
next
  case (Cons h hi)
  then show ?case by (simp add: by_count_desc_def)
qed

lemma sort_two_counts:
  "\<forall>e \<in> set xs. snd e = 3 \<or> snd e = 1 \<Longrightarrow>
   sort_by by_count_desc xs = filter (\<lambda>e. snd e = 3) xs @ filter (\<lambda>e. snd e = 1) xs"
proof (induction xs)
  case Nil
  then show ?case by (simp add: sort_by_def)
next
  case (Cons x xs)
  let ?hi = "filter (\<lambda>e. snd e = 3) xs" and ?lo = "filter (\<lambda>e. snd e = 1) xs"
  have step: "sort_by by_count_desc (x # xs) = insert_by by_count_desc x (?hi @ ?lo)"
    using Cons by (simp add: sort_by_def)
  from Cons.prems consider (high) "snd x = 3" | (low) "snd x = 1"
    by auto
  then show ?case
  proof cases
    case high
    then show ?thesis
      unfolding step by (subst insert_high) auto
  next
    case low
    then show ?thesis
      unfolding step by (subst insert_low) auto
  qed
qed

lemma entries_of_two:
  "Object_entries [(A, 3), (B, 3)]
     = (if index_before B A then [(B, 3), (A, 3)] else [(A, 3), (B, 3::nat)])"
  by (cases "array_index A"; cases "array_index B")
     (auto simp: Object_entries_def List.map_filter_def index_before_def)

lemma entries_of_one: "Object_entries [e] = [e]"
  by (cases "array_index (fst e)") (simp_all add: Object_entries_def List.map_filter_def)

lemma all_Object_entries:
  assumes "\<forall>e \<in> set cs. P e"
  shows "\<forall>e \<in> set (Object_entries cs). P e"
proof -
  have "filter P cs = cs"
    using assms by (simp add: filter_id_conv)
  then have "filter P (Object_entries cs) = Object_entries cs"
    by (simp add: filter_Object_entries)
  then show ?thesis
    by (simp add: filter_id_conv)
qed


lemma filter_member_distinct: "distinct l \<Longrightarrow> c \<in> set l \<Longrightarrow> filter (\<lambda>k. k = c) l = [c]"
  by (induction l) (auto simp: filter_empty_conv)

text \<open>
  Claim C2, as the code has it. Let the phone calls of the log have the values \<open>A\<close>
  three times, \<open>B\<close> three times and \<open>C\<close> once, the first \<open>A\<close> before the first \<open>B\<close>,
  none of the three a name that \<open>Object.prototype\<close> defines. The ranking is
  \<open>[A, B, C]\<close>, unless \<open>B\<close> is an array index and \<open>A\<close> is not one or is a numerically
  larger one: then \<open>Object.entries\<close> lists \<open>B\<close> first and the ranking is \<open>[B, A, C]\<close>.
\<close>

theorem most_used_ties_first_seen:
  assumes dist: "distinct [A, B, C]"
    and own: "set [A, B, C] \<inter> set (js ''__proto__'' # inherited_names) = {}"
    and first: "map fst calls = pre @ A # post" "A \<notin> set pre" "B \<notin> set pre"
    and only: "set (map fst calls) \<subseteq> {A, B, C}"
    and occurs: "count_list (map fst calls) A = 3" "count_list (map fst calls) B = 3"
      "count_list (map fst calls) C = 1"
  shows "getMostUsed (map phone_call_of calls)
           = Inr (Ranked (if index_before B A then [(B, 3), (A, 3), (C, 1)]
                          else [(A, 3), (B, 3), (C, 1)]))"
proof -
  let ?vs = "map fst calls"
  let ?l = "first_seen ?vs"
  let ?P = "\<lambda>k. k = A \<or> k = B"
  let ?counts = "map (\<lambda>k. (k, if k = C then 1 else 3::nat)) ?l"
  have mem: "A \<in> set ?vs" "B \<in> set ?vs" "C \<in> set ?vs"
    using occurs count_list_0_iff [of ?vs] by (metis zero_neq_numeral, metis zero_neq_numeral, metis zero_neq_one)
  then have set_vs: "set ?vs = {A, B, C}"
    using only by auto
  have proto: "js ''__proto__'' \<notin> set ?vs"
    using own set_vs by auto
  have "map (\<lambda>k. (k, count_list ?vs k)) ?l = ?counts"
    using set_vs occurs dist by (intro map_cong) auto
  then have counts: "count_values [] (map phone_call_of calls) = Inr ?counts"
    using count_values_calls [OF proto, of "[]"] by (simp add: foldl_bump)
  have "filter ?P pre = []"
    using first(2,3) by (auto simp: filter_empty_conv)
  then have "filter ?P ?vs = A # filter ?P post"
    using first(1) by simp
  then have "filter ?P ?l = A # first_seen (filter (\<lambda>k. k \<noteq> A) (filter ?P post))"
    by (simp add: first_seen_filter [symmetric])
  moreover have "filter (\<lambda>k. k \<noteq> A) (filter ?P post) = filter (\<lambda>k. k = B) post"
    using dist by (auto intro!: filter_cong)
  moreover have "count_list post B = 3"
    using occurs(2) first dist by (simp add: count_list_0_iff)
  ultimately have order: "filter ?P ?l = [A, B]"
    using first_seen_replicate [of 2 B] by (simp add: filter_eq_replicate numeral_3_eq_3)
  have "filter (\<lambda>k. k \<noteq> C) ?l = filter ?P ?l"
    using set_vs dist by (intro filter_cong) auto
  then have high: "filter (\<lambda>e. snd e = 3) ?counts = [(A, 3), (B, 3)]"
    using order dist by (simp add: filter_map comp_def)
  have "filter (\<lambda>k. k = C) ?l = [C]"
    using mem(3) by (simp add: filter_member_distinct)
  then have low: "filter (\<lambda>e. snd e = 1) ?counts = [(C, 1)]"
    by (simp add: filter_map comp_def)
  have "\<forall>e \<in> set (Object_entries ?counts). snd e = 3 \<or> snd e = 1"
    by (rule all_Object_entries) auto
  then have "sort_by by_count_desc (Object_entries ?counts)
               = Object_entries [(A, 3), (B, 3)] @ Object_entries [(C, 1)]"
    by (simp only: sort_two_counts filter_Object_entries high low)
  then have sorted: "take 5 (sort_by by_count_desc (Object_entries ?counts))
      = (if index_before B A then [(B, 3), (A, 3), (C, 1)] else [(A, 3), (B, 3), (C, 1)])"
    by (simp add: entries_of_two entries_of_one)
  have own_keys: "\<not> (\<exists>k \<in> set ?l. k \<in> set inherited_names)"
    using own set_vs by auto
  have "getMostUsed (map phone_call_of calls)
          = Inr (Ranked (take 5 (sort_by by_count_desc (Object_entries ?counts))))"
    using own_keys by (simp add: getMostUsed_def counts comp_def)
  then show ?thesis
    by (simp only: sorted)
qed

lemma index_samples:
  "array_index (js ''100'') = Some 100" "array_index (js ''101'') = Some 101"
  "array_index (js ''102'') = Some 102"
  "array_index (js ''01-4228435'') = None" "array_index (js ''1-0'') = None"
  by (simp_all add: array_index_def js_def is_digit_def decimal_def)

lemma tied_counts:
  "count_values [] (map phone_call_of tied_calls)
     = Inr [(js ''102'', 3), (js ''100'', 3), (js ''101'', 1)]"
  by (simp add: tied_calls_def phone_call_of_def usage_record_def get_prop_def prop_key_def js_def)

lemma tied_entries:
  "Object_entries [(js ''102'', 3), (js ''100'', 3), (js ''101'', 1)]
     = [(js ''100'', 3), (js ''101'', 1), (js ''102'', 3)]"
  by (simp add: Object_entries_def index_samples List.map_filter_def)

lemma tied_sorted:
  "sort_by by_count_desc [(js ''100'', 3), (js ''101'', 1), (js ''102'', 3)]
     = [(js ''100'', 3), (js ''102'', 3), (js ''101'', 1)]"
  by (simp add: sort_by_def by_count_desc_def)

lemma tied_own:
  "js ''100'' \<notin> set inherited_names" "js ''101'' \<notin> set inherited_names"
  "js ''102'' \<notin> set inherited_names"
  by (simp_all add: inherited_names_def js_def)

text \<open>
  The claim as stated fails for digit-only values: with three calls to 102, three to
  100 and one to 101, the first of them to 102, the ranking starts with 100.
\<close>

theorem most_used_digit_keys_counterexample:
  "getMostUsed (map phone_call_of tied_calls)
     = Inr (Ranked [(js ''100'', 3), (js ''102'', 3), (js ''101'', 1)])
   \<and> getMostUsed (map phone_call_of tied_calls)
     \<noteq> Inr (Ranked [(js ''102'', 3), (js ''100'', 3), (js ''101'', 1)])"
proof -
  have "getMostUsed (map phone_call_of tied_calls)
          = Inr (Ranked [(js ''100'', 3), (js ''102'', 3), (js ''101'', 1)])"
    unfolding getMostUsed_def tied_counts using tied_entries tied_sorted tied_own by simp
  moreover have "js ''100'' \<noteq> js ''102''"
    by (simp add: js_def)
  ultimately show ?thesis by simp
qed

lemma index_before_samples:
  "\<not> index_before (js ''1-0'') (js ''01-4228435'')"
  "\<not> index_before (js ''102'') (js ''100'')"
  "\<not> index_before (js ''01-4228435'') (js ''100'')"
  "index_before (js ''100'') (js ''102'')"
  by (simp_all add: index_before_def index_samples)

theorem most_used_ties_first_seen_witness:
  "getMostUsed (map phone_call_of hyphenated_calls)
     = Inr (Ranked [(js ''01-4228435'', 3), (js ''1-0'', 3), (js ''100'', 1)])
   \<and> getMostUsed (map phone_call_of ordered_calls)
     = Inr (Ranked [(js ''100'', 3), (js ''102'', 3), (js ''101'', 1)])
   \<and> getMostUsed (map phone_call_of mixed_calls)
     = Inr (Ranked [(js ''100'', 3), (js ''01-4228435'', 3), (js ''101'', 1)])
   \<and> getMostUsed (map phone_call_of tied_calls)
     = Inr (Ranked [(js ''100'', 3), (js ''102'', 3), (js ''101'', 1)])"
proof -
  have own: "set [js a, js b, js c] \<inter> set (js ''__proto__'' # inherited_names) = {}"
    if "set [a, b, c] \<subseteq> {''100'', ''101'', ''102'', ''01-4228435'', ''1-0''}" for a b c
    using that by (auto simp: inherited_names_def js_eq_iff)
  have hyphenated:
    "getMostUsed (map phone_call_of hyphenated_calls)
       = Inr (Ranked [(js ''01-4228435'', 3), (js ''1-0'', 3), (js ''100'', 1)])"
    using most_used_ties_first_seen [where calls = hyphenated_calls and pre = "[]"
        and A = "js ''01-4228435''" and B = "js ''1-0''" and C = "js ''100''"
        and post = "map js [''1-0'', ''01-4228435'', ''1-0'', ''100'', ''01-4228435'', ''1-0'']"]
      own [of "''01-4228435''" "''1-0''" "''100''"]
    by (simp add: hyphenated_calls_def js_eq_iff index_before_samples)
  have ordered:
    "getMostUsed (map phone_call_of ordered_calls)
       = Inr (Ranked [(js ''100'', 3), (js ''102'', 3), (js ''101'', 1)])"
    using most_used_ties_first_seen [where calls = ordered_calls and pre = "[]"
        and A = "js ''100''" and B = "js ''102''" and C = "js ''101''"
        and post = "map js [''102'', ''100'', ''102'', ''100'', ''102'', ''101'']"]
      own [of "''100''" "''102''" "''101''"]
    by (simp add: ordered_calls_def js_eq_iff index_before_samples)
  have mixed:
    "getMostUsed (map phone_call_of mixed_calls)
       = Inr (Ranked [(js ''100'', 3), (js ''01-4228435'', 3), (js ''101'', 1)])"
    using most_used_ties_first_seen [where calls = mixed_calls and pre = "[]"
        and A = "js ''100''" and B = "js ''01-4228435''" and C = "js ''101''"
        and post = "map js [''01-4228435'', ''100'', ''01-4228435'', ''100'', ''01-4228435'', ''101'']"]
      own [of "''100''" "''01-4228435''" "''101''"]
    by (simp add: mixed_calls_def js_eq_iff index_before_samples)
  have tied:
    "getMostUsed (map phone_call_of tied_calls)
       = Inr (Ranked [(js ''100'', 3), (js ''102'', 3), (js ''101'', 1)])"
    using most_used_ties_first_seen [where calls = tied_calls and pre = "[]"
        and A = "js ''102''" and B = "js ''100''" and C = "js ''101''"
        and post = "map js [''100'', ''102'', ''100'', ''102'', ''100'', ''101'']"]
      own [of "''102''" "''100''" "''101''"]
    by (simp add: tied_calls_def js_eq_iff index_before_samples)
  from hyphenated ordered mixed tied show ?thesis
    by (intro conjI)
qed

section \<open>Properties of the clipboard copy\<close>

lemma toasts_of_append: "toasts_of (xs @ ys) = toasts_of xs @ toasts_of ys"
  by (induction xs rule: toasts_of.induct) auto

lemma showToast_trace [simp]: "trace (showToast m k w) = trace w @ [ShowToast m k]"
  by (simp add: showToast_def setTimeout_def clearTimeout_def Let_def split: option.splits)

lemma showToast_body [simp]: "body (showToast m k w) = body w"
  by (simp add: showToast_def setTimeout_def clearTimeout_def Let_def split: option.splits)

lemma showToast_next_node [simp]: "next_node (showToast m k w) = next_node w"
  by (simp add: showToast_def setTimeout_def clearTimeout_def Let_def split: option.splits)

text \<open>
  Claim C8. The fallback copy always returns, and when it has returned the textarea it
  created is not attached to the body, whether the copy command returned true,
  returned false or threw; if the identity it used was fresh, the body is as before.
\<close>

theorem fallback_removes_textarea:
  "\<exists>w'. fallbackCopyToClipboard t env w = Inr w' \<and> next_node w \<notin> fst ` set (body w')
      \<and> (next_node w \<notin> fst ` set (body w) \<longrightarrow> body w' = body w)"
  by (cases "execCommand_outcome env")
     (force simp: fallbackCopyToClipboard_def removeChild_def Let_def filter_id_conv)+

theorem fallback_removes_textarea_witness:
  "\<exists>w'. fallbackCopyToClipboard (js ''100'') denied_env initial_world = Inr w' \<and> body w' = []"
  using fallback_removes_textarea [of "js ''100''" denied_env initial_world]
  by (auto simp: initial_world_def)

text \<open>
  Claim C7. With an empty or missing argument \<open>copyToClipboard\<close> only shows the
  failure notification: the trace gains that one call and nothing else (no
  \<open>writeText\<close>, no textarea, no copy command), and the body is untouched.
\<close>

theorem copyToClipboard_empty_input:
  assumes "text = None \<or> text = Some []"
  shows "copyToClipboard text env w = Inr (showToast no_phone_message (js ''error'') w)
       \<and> trace (showToast no_phone_message (js ''error'') w)
            = trace w @ [ShowToast no_phone_message (js ''error'')]
       \<and> body (showToast no_phone_message (js ''error'') w) = body w
       \<and> next_node (showToast no_phone_message (js ''error'') w) = next_node w"
  using assms by (auto simp: copyToClipboard_def no_phone_message_def)

theorem copyToClipboard_empty_input_witness:
  "copyToClipboard (Some []) denied_env initial_world
     = Inr (showToast no_phone_message (js ''error'') initial_world)
   \<and> trace (showToast no_phone_message (js ''error'') initial_world)
        = [ShowToast no_phone_message (js ''error'')]
   \<and> body (showToast no_phone_message (js ''error'') initial_world) = []"
  using copyToClipboard_empty_input [of "Some []" denied_env initial_world]
  by (simp add: initial_world_def)

lemma showToast_toast:
  "toast (showToast m k w)
     = map_option (\<lambda>el. el\<lparr>textContent := m, className := js ''toast toast--'' @ k,
                            display := js ''block'', animation := js ''slideInRight 0.3s ease''\<rparr>)
         (toast w)"
  by (simp add: showToast_def setTimeout_def clearTimeout_def Let_def split: option.splits)

lemma showToast_toasts [simp]:
  "toasts_of (trace (showToast m k w)) = toasts_of (trace w) @ [(m, k)]"
  by (simp add: toasts_of_append)

lemma fallback_one_toast:
  "\<exists>w' m k. fallbackCopyToClipboard t env w = Inr w'
       \<and> toasts_of (trace w') = toasts_of (trace w) @ [(m, k)]
       \<and> (k = js ''success'' \<or> k = js ''error'')
       \<and> (\<forall>el. toast w = Some el \<longrightarrow>
             (\<exists>el'. toast w' = Some el' \<and> textContent el' = m \<and> display el' = js ''block''))"
proof (cases "execCommand_outcome env")
  case (Returns successful)
  then show ?thesis
    by (cases successful)
       (auto simp: fallbackCopyToClipboard_def removeChild_def Let_def toasts_of_append
          showToast_toast image_Un)
next
  case (Throws err)
  then show ?thesis
    by (auto simp: fallbackCopyToClipboard_def removeChild_def Let_def toasts_of_append
          showToast_toast image_Un)
qed

lemma toasts_of_console [simp]: "toasts_of (trace (w\<lparr>console := c\<rparr>)) = toasts_of (trace w)"
  by simp

text \<open>
  Claim C4. For every non-empty text and every outcome of the clipboard API and of the
  fallback, \<open>copyToClipboard\<close> returns and has requested exactly one notification,
  of kind \<open>success\<close> or \<open>error\<close>; when the page has the notification element, that
  message is what the element shows afterwards.
\<close>

theorem copyToClipboard_one_toast:
  assumes "t \<noteq> []"
  shows "\<exists>w' m k. copyToClipboard (Some t) env w = Inr w'
       \<and> toasts_of (trace w') = toasts_of (trace w) @ [(m, k)]
       \<and> (k = js ''success'' \<or> k = js ''error'')
       \<and> (\<forall>el. toast w = Some el \<longrightarrow>
             (\<exists>el'. toast w' = Some el' \<and> textContent el' = m \<and> display el' = js ''block''))"
proof (cases "has_clipboard env \<and> isSecureContext env")
  case False
  then show ?thesis
    using assms fallback_one_toast [of t env w]
    by (auto simp: copyToClipboard_def copyToClipboard_try_def)
next
  case True
  show ?thesis
  proof (cases "writeText_outcome env")
    case Resolves
    then show ?thesis
      using assms True
      by (auto simp: copyToClipboard_def copyToClipboard_try_def Let_def toasts_of_append showToast_toast)
  next
    case (Rejects err)
    let ?w1 = "w\<lparr>trace := trace w @ [WriteText t],
                  console := console w @ [(CError, js ''Clipboard operation failed:'', Exn err)]\<rparr>"
    have "copyToClipboard (Some t) env w = fallbackCopyToClipboard t env ?w1"
      using assms True Rejects by (simp add: copyToClipboard_def copyToClipboard_try_def Let_def)
    then show ?thesis
      using fallback_one_toast [of t env ?w1] by (simp add: toasts_of_append)
  qed
qed

theorem copyToClipboard_one_toast_witness:
  "\<exists>w' m k. copyToClipboard (Some (js ''100'')) denied_env initial_world = Inr w'
       \<and> toasts_of (trace w') = [(m, k)] \<and> (k = js ''success'' \<or> k = js ''error'')
       \<and> map_option textContent (toast w') = Some m"
proof -
  have "js ''100'' \<noteq> []"
    by (simp add: js_def)
  from copyToClipboard_one_toast [OF this, of denied_env initial_world]
  show ?thesis
    by (auto simp: initial_world_def)
qed

lemma denied_copy_toasts:
  "\<exists>w'. copyToClipboard (Some (js ''100'')) denied_env initial_world = Inr w'
     \<and> toasts_of (trace w') = [(cross_mark @ js '' Copy failed - please try again'', js ''error'')]"
  by (simp add: copyToClipboard_def copyToClipboard_try_def fallbackCopyToClipboard_def
      removeChild_def denied_env_def Let_def js_def)
     (simp add: initial_world_def)

section \<open>Properties of the notification widget\<close>

lemma tracked_showToast: "tracked w \<Longrightarrow> tracked (showToast m k w)"
  by (auto simp: tracked_def showToast_def setTimeout_def clearTimeout_def Let_def distinct_map_filter
      split: option.splits)

lemma in_remove1: "x \<in> set (remove1 t ts) \<Longrightarrow> x \<in> set ts"
  by (metis notin_set_remove1)

lemma distinct_map_remove1: "distinct (map f ts) \<Longrightarrow> distinct (map f (remove1 t ts))"
  by (induction ts) (auto dest: in_remove1)

lemma tracked_fire:
  assumes "tracked w" and "t \<in> set (timers w)"
  shows "tracked (fire t w)"
proof -
  let ?rest = "remove1 t (timers w)"
  have small: "\<forall>u \<in> set ?rest. timer_id u < next_timer w"
    using assms(1) by (auto simp: tracked_def dest: in_remove1)
  have dist: "distinct (map timer_id ?rest)"
    using assms(1) by (simp add: tracked_def distinct_map_remove1)
  have autos: "\<forall>u \<in> set ?rest. callback u = AutoHide \<longrightarrow> toastTimeout w = Some (timer_id u) \<and> timer_id u \<noteq> 0"
    using assms(1) by (auto simp: tracked_def dest: in_remove1)
  have pos: "0 < next_timer w"
    using assms(1) by (simp add: tracked_def)
  show ?thesis
  proof (cases "callback t")
    case AutoHide
    have "next_timer w \<notin> timer_id ` set ?rest"
      using small by auto
    then show ?thesis
      using small dist autos pos AutoHide
      by (auto simp: tracked_def fire_def run_callback_def setTimeout_def less_Suc_eq)
  next
    case HideNow
    then show ?thesis
      using small dist autos pos by (auto simp: tracked_def fire_def run_callback_def)
  qed
qed

lemma tracked_clock: "tracked (w\<lparr>clock := c\<rparr>) = tracked w"
  by (simp add: tracked_def)

lemma tracked_elapse_until: "tracked w \<Longrightarrow> tracked (elapse_until deadline w)"
proof (induction deadline w rule: elapse_until.induct)
  case (1 deadline w)
  show ?case
  proof (cases "earliest (timers w)")
    case None
    then show ?thesis
      using "1.prems" by (subst elapse_until.simps) (simp add: tracked_clock)
  next
    case (Some t)
    show ?thesis
    proof (cases "due t \<le> deadline")
      case True
      have "tracked (fire t w)"
        using "1.prems" Some earliest_in tracked_fire by blast
      then have "tracked (elapse_until deadline (fire t w))"
        using Some True by (rule "1.IH" [rotated 2])
      then show ?thesis
        using Some True by (subst elapse_until.simps) simp
    next
      case False
      then show ?thesis
        using "1.prems" Some by (subst elapse_until.simps) (simp add: tracked_clock)
    qed
  qed
qed

lemma tracked_run: "tracked w \<Longrightarrow> tracked (widget_run w evs)"
proof (induction evs arbitrary: w)
  case Nil
  then show ?case by (simp add: widget_run_def)
next
  case (Cons ev evs)
  have "tracked (widget_step ev w)"
    using Cons.prems by (cases ev) (simp_all add: tracked_showToast tracked_elapse_until elapse_def)
  then show ?case
    using Cons.IH by (simp add: widget_run_def)
qed

lemma same_key_once:
  assumes "distinct (map f xs)" and "\<forall>x \<in> set xs. \<forall>y \<in> set xs. f x = f y"
  shows "length xs \<le> 1"
proof (cases xs)
  case Nil
  then show ?thesis by simp
next
  case outer: (Cons x ys)
  show ?thesis
  proof (cases ys)
    case Nil
    with outer show ?thesis by simp
  next
    case (Cons y zs)
    have "x \<in> set xs" and "y \<in> set xs"
      using outer Cons by simp_all
    then have "f x = f y"
      using assms(2) by blast
    moreover have "f x \<noteq> f y"
      using assms(1) outer Cons by simp
    ultimately show ?thesis by simp
  qed
qed

lemma tracked_one_auto_hide:
  assumes "tracked w"
  shows "length (filter (\<lambda>t. callback t = AutoHide) (timers w)) \<le> 1"
proof (rule same_key_once [where f = timer_id])
  have "distinct (map timer_id (timers w))"
    using assms by (simp add: tracked_def)
  then show "distinct (map timer_id (filter (\<lambda>t. callback t = AutoHide) (timers w)))"
    by (rule distinct_map_filter)
  have handle: "toastTimeout w = Some (timer_id t)"
    if "t \<in> set (timers w)" and "callback t = AutoHide" for t
    using assms that unfolding tracked_def by blast
  show "\<forall>x \<in> set (filter (\<lambda>t. callback t = AutoHide) (timers w)).
          \<forall>y \<in> set (filter (\<lambda>t. callback t = AutoHide) (timers w)). timer_id x = timer_id y"
  proof (intro ballI)
    fix x y
    assume "x \<in> set (filter (\<lambda>t. callback t = AutoHide) (timers w))"
      and "y \<in> set (filter (\<lambda>t. callback t = AutoHide) (timers w))"
    then have "Some (timer_id x) = Some (timer_id y)"
      using handle [of x] handle [of y] by auto
    then show "timer_id x = timer_id y" by (rule option.inject [THEN iffD1])
  qed
qed

lemma tracked_initial: "tracked initial_world"
  by (simp add: tracked_def initial_world_def)

lemma one_auto_hide_timer:
  "length (filter (\<lambda>t. callback t = AutoHide) (timers (widget_run initial_world evs))) \<le> 1"
  using tracked_initial by (intro tracked_one_auto_hide tracked_run)

lemma elapse_before_due:
  assumes "timers w = [t]" and "clock w + ms < due t"
  shows "elapse ms w = w\<lparr>clock := clock w + ms\<rparr>"
  unfolding elapse_def using assms by (subst elapse_until.simps) simp

lemma two_in_quick_succession:
  assumes "toast w = Some el" and "timers w = []" and "0 < next_timer w" and "ms < 3000"
  shows "timers (showToast m2 k2 (elapse ms (showToast m1 k1 w)))
           = [\<lparr>timer_id = next_timer w + 1, due = clock w + ms + 3000, callback = AutoHide\<rparr>]
       \<and> map_option textContent (toast (showToast m2 k2 (elapse ms (showToast m1 k1 w)))) = Some m2
       \<and> map_option display (toast (showToast m2 k2 (elapse ms (showToast m1 k1 w)))) = Some (js ''block'')"
proof -
  let ?w1 = "showToast m1 k1 w"
  have t1: "timers ?w1 = [\<lparr>timer_id = next_timer w, due = clock w + 3000, callback = AutoHide\<rparr>]"
    and c1: "clock ?w1 = clock w" and h1: "toastTimeout ?w1 = Some (next_timer w)"
    and n1: "next_timer ?w1 = next_timer w + 1"
    using assms(1,2)
    by (auto simp: showToast_def setTimeout_def clearTimeout_def Let_def split: option.splits)
  have e: "elapse ms ?w1 = ?w1\<lparr>clock := clock w + ms\<rparr>"
    using elapse_before_due [OF t1] assms(4) c1 by simp
  show ?thesis
    unfolding e using t1 h1 n1 assms(1,3)
    by (auto simp: showToast_def [of m2 k2] setTimeout_def clearTimeout_def Let_def showToast_toast
        split: option.splits)
qed

lemma first_shown_is:
  "first_shown =
     \<lparr>toast = Some \<lparr>textContent = js ''first'', className = js ''toast toast--'' @ js ''success'',
                    display = js ''block'', animation = js ''slideInRight 0.3s ease''\<rparr>,
      toastTimeout = Some 1,
      timers = [\<lparr>timer_id = 1, due = 3000, callback = AutoHide\<rparr>],
      next_timer = 2, clock = 0, body = [], next_node = 0, usage_item = None, console = [],
      trace = [ShowToast (js ''first'') (js ''success'')]\<rparr>"
  by (simp add: first_shown_def showToast_def initial_world_def setTimeout_def Let_def)

lemma first_fading_is:
  "first_fading =
     \<lparr>toast = Some \<lparr>textContent = js ''first'', className = js ''toast toast--'' @ js ''success'',
                    display = js ''block'', animation = js ''slideOutRight 0.3s ease''\<rparr>,
      toastTimeout = Some 1,
      timers = [\<lparr>timer_id = 2, due = 3300, callback = HideNow\<rparr>],
      next_timer = 3, clock = 3100, body = [], next_node = 0, usage_item = None, console = [],
      trace = [ShowToast (js ''first'') (js ''success'')]\<rparr>"
  by (simp add: first_fading_def first_shown_is elapse_def elapse_until.simps fire_def
      run_callback_def setTimeout_def)

lemma second_shown_is:
  "second_shown =
     \<lparr>toast = Some \<lparr>textContent = js ''second'', className = js ''toast toast--'' @ js ''success'',
                    display = js ''block'', animation = js ''slideInRight 0.3s ease''\<rparr>,
      toastTimeout = Some 3,
      timers = [\<lparr>timer_id = 2, due = 3300, callback = HideNow\<rparr>,
                \<lparr>timer_id = 3, due = 6100, callback = AutoHide\<rparr>],
      next_timer = 4, clock = 3100, body = [], next_node = 0, usage_item = None, console = [],
      trace = [ShowToast (js ''first'') (js ''success''), ShowToast (js ''second'') (js ''success'')]\<rparr>"
  by (simp add: second_shown_def first_fading_is showToast_def setTimeout_def clearTimeout_def Let_def)

lemma second_hidden_early:
  "elapse 200 second_shown =
     \<lparr>toast = Some \<lparr>textContent = js ''second'', className = js ''toast toast--'' @ js ''success'',
                    display = js ''none'', animation = js ''slideInRight 0.3s ease''\<rparr>,
      toastTimeout = Some 3,
      timers = [\<lparr>timer_id = 3, due = 6100, callback = AutoHide\<rparr>],
      next_timer = 4, clock = 3300, body = [], next_node = 0, usage_item = None, console = [],
      trace = [ShowToast (js ''first'') (js ''success''), ShowToast (js ''second'') (js ''success'')]\<rparr>"
  by (simp add: second_shown_is elapse_def elapse_until.simps fire_def run_callback_def)

lemma third_shown_is:
  "third_shown =
     \<lparr>toast = Some \<lparr>textContent = js ''third'', className = js ''toast toast--'' @ js ''error'',
                    display = js ''block'', animation = js ''slideInRight 0.3s ease''\<rparr>,
      toastTimeout = Some 4,
      timers = [\<lparr>timer_id = 2, due = 3300, callback = HideNow\<rparr>,
                \<lparr>timer_id = 4, due = 6200, callback = AutoHide\<rparr>],
      next_timer = 5, clock = 3200, body = [], next_node = 0, usage_item = None, console = [],
      trace = [ShowToast (js ''first'') (js ''success''), ShowToast (js ''second'') (js ''success''),
               ShowToast (js ''third'') (js ''error'')]\<rparr>"
  by (simp add: third_shown_def second_shown_is elapse_def elapse_until.simps showToast_def
      setTimeout_def clearTimeout_def Let_def)

lemma third_hidden_early:
  "elapse 100 third_shown =
     \<lparr>toast = Some \<lparr>textContent = js ''third'', className = js ''toast toast--'' @ js ''error'',
                    display = js ''none'', animation = js ''slideInRight 0.3s ease''\<rparr>,
      toastTimeout = Some 4,
      timers = [\<lparr>timer_id = 4, due = 6200, callback = AutoHide\<rparr>],
      next_timer = 5, clock = 3300, body = [], next_node = 0, usage_item = None, console = [],
      trace = [ShowToast (js ''first'') (js ''success''), ShowToast (js ''second'') (js ''success''),
               ShowToast (js ''third'') (js ''error'')]\<rparr>"
  by (simp add: third_shown_is elapse_def elapse_until.simps fire_def run_callback_def)

text \<open>
  Claim C6 fails on the code. \<open>showToast\<close> clears only the handle it kept, that of the
  3 second timer; the 300 ms timer that hides the element is set by that timer's
  callback and its handle is kept nowhere. A notification requested 3.1 seconds after
  the first finds that hide timer pending and cannot clear it: two timers are pending
  after the call, and 200 ms later the stale one hides the second message. The same
  holds for a third notification requested 100 ms after the second, before the
  second's 3 second timer fires: that timer is cancelled and the third message shown,
  but two timers are pending, and 100 ms later the third message is hidden.
\<close>

theorem stale_hide_timer_survives:
  "map callback (timers second_shown) = [HideNow, AutoHide]
   \<and> map_option textContent (toast second_shown) = Some (js ''second'')
   \<and> map_option display (toast second_shown) = Some (js ''block'')
   \<and> clock (elapse 200 second_shown) = 3300
   \<and> map_option textContent (toast (elapse 200 second_shown)) = Some (js ''second'')
   \<and> map_option display (toast (elapse 200 second_shown)) = Some (js ''none'')
   \<and> map callback (timers third_shown) = [HideNow, AutoHide]
   \<and> length (timers third_shown) = 2
   \<and> map_option textContent (toast third_shown) = Some (js ''third'')
   \<and> clock (elapse 100 third_shown) = 3300
   \<and> map_option textContent (toast (elapse 100 third_shown)) = Some (js ''third'')
   \<and> map_option display (toast (elapse 100 third_shown)) = Some (js ''none'')"
  by (simp add: second_hidden_early third_hidden_early) (simp add: second_shown_is third_shown_is)

section \<open>Properties of the phone number extraction\<close>

lemma indexOf_Some: "indexOf xs x = Some i \<Longrightarrow> i < length xs \<and> xs ! i = x \<and> x \<notin> set (take i xs)"
  by (induction xs arbitrary: i) (auto split: if_splits)

lemma indexOf_None: "(indexOf xs x = None) = (x \<notin> set xs)"
  by (induction xs) auto

lemma node_at_append:
  "node_at n (p @ q) = (case node_at n p of None \<Rightarrow> None | Some m \<Rightarrow> node_at m q)"
  by (induction n p rule: node_at.induct) auto

lemma select_valid:
  "q \<in> set (select_in cls p n) \<Longrightarrow>
     \<exists>r cs d ks. q = p @ r \<and> node_at n r = Some (Element cs d ks) \<and> cls \<in> set cs"
  "q \<in> set (select_children cls p i kids) \<Longrightarrow>
     \<exists>j r cs d ks. q = p @ (i + j) # r \<and> j < length kids
        \<and> node_at (kids ! j) r = Some (Element cs d ks) \<and> cls \<in> set cs"
proof (induction cls p n and cls p i kids arbitrary: q and q rule: select_in_select_children.induct)
  case (1 cls p s)
  then show ?case by simp
next
  case (2 cls p cs d ks)
  from "2.prems" consider (here) "cls \<in> set cs \<and> q = p"
    | (below) "q \<in> set (select_children cls p 0 ks)"
    by (auto split: if_splits)
  then show ?case
  proof cases
    case here
    then have "q = p @ []" and "node_at (Element cs d ks) [] = Some (Element cs d ks)"
      and "cls \<in> set cs"
      by simp_all
    then show ?thesis by blast
  next
    case below
    from "2.IH" [OF this] obtain j r cs' d' ks' where
      "q = p @ j # r" "j < length ks" "node_at (ks ! j) r = Some (Element cs' d' ks')" "cls \<in> set cs'"
      by auto
    then have "q = p @ (j # r)" and "node_at (Element cs d ks) (j # r) = Some (Element cs' d' ks')"
      by simp_all
    with \<open>cls \<in> set cs'\<close> show ?thesis by blast
  qed
next
  case (3 cls p i)
  then show ?case by simp
next
  case (4 cls p i k ks)
  from "4.prems" consider (first) "q \<in> set (select_in cls (p @ [i]) k)"
    | (later) "q \<in> set (select_children cls p (Suc i) ks)"
    by auto
  then show ?case
  proof cases
    case first
    from "4.IH"(1) [OF this] obtain r cs d ks' where
      "q = (p @ [i]) @ r" "node_at k r = Some (Element cs d ks')" "cls \<in> set cs"
      by blast
    then have "q = p @ (i + 0) # r" and "0 < length (k # ks)"
      and "node_at ((k # ks) ! 0) r = Some (Element cs d ks')"
      by simp_all
    with \<open>cls \<in> set cs\<close> show ?thesis by blast
  next
    case later
    from "4.IH"(2) [OF this] obtain j r cs d ks' where
      "q = p @ (Suc i + j) # r" "j < length ks" "node_at (ks ! j) r = Some (Element cs d ks')" "cls \<in> set cs"
      by blast
    then have "q = p @ (i + Suc j) # r" and "Suc j < length (k # ks)"
      and "node_at ((k # ks) ! Suc j) r = Some (Element cs d ks')"
      by simp_all
    with \<open>cls \<in> set cs\<close> show ?thesis by blast
  qed
qed

lemma querySelectorAll_valid:
  assumes "q \<in> set (querySelectorAll doc l cls)"
  shows "has_class_at doc cls q \<and> (\<exists>t. text_at doc q = Some t)"
proof (cases "node_at doc l")
  case None
  with assms show ?thesis by (simp add: querySelectorAll_def)
next
  case (Some n)
  show ?thesis
  proof (cases n)
    case (TextNode s)
    with assms Some show ?thesis by (simp add: querySelectorAll_def)
  next
    case (Element cs d ks)
    with assms Some have "q \<in> set (select_children cls l 0 ks)"
      by (simp add: querySelectorAll_def)
    from select_valid(2) [OF this] obtain j r cs' d' ks' where
      "q = l @ j # r" "j < length ks" "node_at (ks ! j) r = Some (Element cs' d' ks')" "cls \<in> set cs'"
      by auto
    then show ?thesis
      using Some Element by (simp add: has_class_at_def text_at_def node_at_append)
  qed
qed

lemma has_class_text: "has_class_at doc cls q \<Longrightarrow> \<exists>t. text_at doc q = Some t"
  by (auto simp: has_class_at_def text_at_def split: option.splits)

text \<open>
  Claim C5. \<open>extractPhoneNumber\<close> tries three sources in order and returns the
  first that applies: (a) the previous element sibling, if it is a phone button, gives
  its trimmed text; (b) otherwise, in the nearest enclosing phone list, the phone
  button at the position that the copy button has among the copy buttons gives its
  trimmed text; (c) otherwise the \<open>data-phone\<close> attribute, and \<open>null\<close> if that is
  missing or empty.
\<close>

theorem extractPhoneNumber_order:
  "(previousElementSibling doc b = Some q \<and> has_class_at doc (js ''phone-btn'') q
      \<longrightarrow> (\<exists>t. text_at doc q = Some t \<and> extractPhoneNumber doc b = Some (trim t)))
   \<and> ((\<forall>q. previousElementSibling doc b = Some q \<longrightarrow> \<not> has_class_at doc (js ''phone-btn'') q)
      \<and> closest doc (js ''phone-list'') b = Some l
      \<and> indexOf (querySelectorAll doc l (js ''copy-btn'')) b = Some i
      \<and> i < length (querySelectorAll doc l (js ''phone-btn''))
      \<longrightarrow> (\<exists>t. text_at doc (querySelectorAll doc l (js ''phone-btn'') ! i) = Some t
             \<and> extractPhoneNumber doc b = Some (trim t)))
   \<and> ((\<forall>q. previousElementSibling doc b = Some q \<longrightarrow> \<not> has_class_at doc (js ''phone-btn'') q)
      \<and> (\<forall>l i. closest doc (js ''phone-list'') b = Some l
             \<and> indexOf (querySelectorAll doc l (js ''copy-btn'')) b = Some i
             \<longrightarrow> \<not> i < length (querySelectorAll doc l (js ''phone-btn'')))
      \<longrightarrow> extractPhoneNumber doc b = data_fallback doc b)"
proof (intro conjI impI)
  assume a: "previousElementSibling doc b = Some q \<and> has_class_at doc (js ''phone-btn'') q"
  then obtain t where "text_at doc q = Some t"
    using has_class_text by blast
  with a show "\<exists>t. text_at doc q = Some t \<and> extractPhoneNumber doc b = Some (trim t)"
    by (simp add: extractPhoneNumber_def)
next
  let ?phoneButtons = "querySelectorAll doc l (js ''phone-btn'')"
  assume b: "(\<forall>q. previousElementSibling doc b = Some q \<longrightarrow> \<not> has_class_at doc (js ''phone-btn'') q)
      \<and> closest doc (js ''phone-list'') b = Some l
      \<and> indexOf (querySelectorAll doc l (js ''copy-btn'')) b = Some i
      \<and> i < length ?phoneButtons"
  then have "?phoneButtons ! i \<in> set ?phoneButtons"
    by simp
  then obtain t where "text_at doc (?phoneButtons ! i) = Some t"
    using querySelectorAll_valid by blast
  with b show "\<exists>t. text_at doc (?phoneButtons ! i) = Some t \<and> extractPhoneNumber doc b = Some (trim t)"
    by (cases "previousElementSibling doc b") (simp_all add: extractPhoneNumber_def)
next
  assume "(\<forall>q. previousElementSibling doc b = Some q \<longrightarrow> \<not> has_class_at doc (js ''phone-btn'') q)
      \<and> (\<forall>l i. closest doc (js ''phone-list'') b = Some l
             \<and> indexOf (querySelectorAll doc l (js ''copy-btn'')) b = Some i
             \<longrightarrow> \<not> i < length (querySelectorAll doc l (js ''phone-btn'')))"
  then show "extractPhoneNumber doc b = data_fallback doc b"
    by (cases "previousElementSibling doc b"; cases "closest doc (js ''phone-list'') b")
       (auto simp: extractPhoneNumber_def data_fallback_def Let_def split: option.splits)
qed

lemma trim_samples: "trim (js '' 100 '') = js ''100''" "trim (js ''101'') = js ''101''"
  by (simp_all add: trim_def is_space_def js_def)

lemma adjacent_doc_sibling:
  "previousElementSibling adjacent_doc [3] = Some [1]"
  "has_class_at adjacent_doc (js ''phone-btn'') [1]"
  "text_at adjacent_doc [1] = Some (js '' 100 '')"
  by (simp_all add: previousElementSibling_def adjacent_doc_def phone_button_def copy_button_def
      is_element_def has_class_at_def text_at_def upt_rec numeral_nat)

lemma list_doc_pairing:
  "previousElementSibling list_doc [1, 1, 2] = Some [1, 1, 1]"
  "\<not> has_class_at list_doc (js ''phone-btn'') [1, 1, 1]"
  "closest list_doc (js ''phone-list'') [1, 1, 2] = Some [1]"
  "querySelectorAll list_doc [1] (js ''copy-btn'') = [[1, 0, 2], [1, 1, 2], [1, 2, 2]]"
  "querySelectorAll list_doc [1] (js ''phone-btn'') = [[1, 0, 0], [1, 1, 0], [1, 2, 0]]"
  "text_at list_doc [1, 1, 0] = Some (js ''101'')"
  by (simp_all add: previousElementSibling_def list_doc_def phone_button_def copy_button_def
      label_of_def is_element_def has_class_at_def text_at_def closest_def querySelectorAll_def
      js_eq_iff upt_rec numeral_nat)

theorem extractPhoneNumber_order_witness:
  "extractPhoneNumber adjacent_doc [3] = Some (js ''100'')
   \<and> extractPhoneNumber list_doc [1, 1, 2] = Some (js ''101'')
   \<and> extractPhoneNumber data_doc [0] = Some (js ''103'')
   \<and> extractPhoneNumber data_doc [1] = None
   \<and> extractPhoneNumber data_doc [2] = None"
proof -
  have "extractPhoneNumber adjacent_doc [3] = Some (trim (js '' 100 ''))"
    using extractPhoneNumber_order [where doc = adjacent_doc and b = "[3]" and q = "[1]"]
      adjacent_doc_sibling
    by simp
  moreover have "extractPhoneNumber list_doc [1, 1, 2] = Some (trim (js ''101''))"
    using extractPhoneNumber_order [where doc = list_doc and b = "[1, 1, 2]" and l = "[1]" and i = 1]
      list_doc_pairing
    by simp
  moreover have "extractPhoneNumber data_doc [k] = data_fallback data_doc [k]" if "k < 3" for k
  proof -
    have "previousElementSibling data_doc [k] = None \<or> (\<exists>j. previousElementSibling data_doc [k] = Some [j])"
      by (auto simp: previousElementSibling_def data_doc_def split: list.splits)
    moreover have "\<not> has_class_at data_doc (js ''phone-btn'') [j]" for j
      by (auto simp: has_class_at_def data_doc_def js_eq_iff nth_Cons split: nat.splits)
    moreover have "closest data_doc (js ''phone-list'') [k] = None"
      using that by (auto simp: closest_def has_class_at_def data_doc_def js_def nth_Cons split: nat.splits)
    ultimately show ?thesis
      using extractPhoneNumber_order [where doc = data_doc and b = "[k]"] by auto
  qed
  moreover have "data_fallback data_doc [0] = Some (js ''103'')"
    and "data_fallback data_doc [1] = None" and "data_fallback data_doc [2] = None"
    by (simp_all add: data_fallback_def dataset_phone_at_def data_doc_def js_def)
  ultimately show ?thesis
    by (simp add: trim_samples)
qed

end
